theory Spec2Isabelle
  imports Main "HOL-Library.Word" "HOL-Library.Sublist" "HOL-Library.Multiset"
begin

section \<open>Data model of main.go\<close>

text \<open>
  A row of table \<open>media\<close>, as struct \<open>MediaItem\<close> reads it. Go strings are byte
  sequences, so \<open>string\<close> (a list of 8-bit characters) is their model. \<open>Size\<close> is an
  int64. \<open>CreatedAt\<close> is the value of \<open>CURRENT_TIMESTAMP\<close> at the insert, counted in
  seconds. \<open>ID\<close> is the rowid; it is never used in arithmetic by the program, and the
  counters of the program (\<open>count\<close>, the three statistics) are bounded by the number of
  rows, so they are modelled as unbounded integers.
\<close>

record MediaItem =
  ID :: int
  Path :: string
  Filename :: string
  Size :: "64 word"
  Type :: string
  CreatedAt :: nat

text \<open>The table \<open>supportedExtensions\<close> (main.go, lines 33 to 46).\<close>

definition supportedExtensions :: "string \<rightharpoonup> string" where
  "supportedExtensions = map_of
     [(''.mp4'', ''video''),
      (''.avi'', ''video''),
      (''.mkv'', ''video''),
      (''.mov'', ''video''),
      (''.wmv'', ''video''),
      (''.flv'', ''video''),
      (''.webm'', ''video''),
      (''.jpg'', ''image''),
      (''.jpeg'', ''image''),
      (''.png'', ''image''),
      (''.gif'', ''image''),
      (''.webp'', ''image'')]"

section \<open>The library functions the handlers call\<close>

subsection \<open>filepath.Ext and strings.ToLower\<close>

text \<open>
  \<open>filepath.Ext\<close> scans the path backwards, from its last byte down to the first path
  separator (\<open>/\<close>, as on Unix), and returns the suffix that starts at the first dot it
  meets, or the empty string. \<open>Ext_loop path (Suc i)\<close> is the loop at index \<open>i\<close>.
\<close>

fun Ext_loop :: "string \<Rightarrow> nat \<Rightarrow> string" where
  "Ext_loop path 0 = ''''"
| "Ext_loop path (Suc i) =
     (if path ! i = CHR ''/'' then ''''
      else if path ! i = CHR ''.'' then drop i path
      else Ext_loop path i)"

definition Ext :: "string \<Rightarrow> string" where
  "Ext path = Ext_loop path (length path)"

text \<open>
  \<open>strings.ToLower\<close> maps the bytes \<open>A\<close> to \<open>Z\<close> to \<open>a\<close> to \<open>z\<close> when every byte of the
  string is ASCII. On a string with a byte of 128 or more it applies the Unicode case
  mapping to the decoded runes; that mapping is the parameter \<open>unicode_lower\<close>.
\<close>

definition lower_byte :: "char \<Rightarrow> char" where
  "lower_byte c =
     (if (65::nat) \<le> of_char c \<and> of_char c \<le> (90::nat)
      then char_of (of_char c + (32::nat)) else c)"

definition ToLower :: "(string \<Rightarrow> string) \<Rightarrow> string \<Rightarrow> string" where
  "ToLower unicode_lower s =
     (if list_all (\<lambda>c. of_char c < (128::nat)) s then map lower_byte s
      else unicode_lower s)"

subsection \<open>filepath.Walk\<close>

text \<open>
  What \<open>filepath.Walk\<close> finds at a path: \<open>lstat\<close> fails; or it succeeds on something
  that is not a directory; or on a directory whose names can be read, each name joined
  to the directory's path and found in its turn; or on a directory whose names cannot be
  read. Every node that \<open>lstat\<close> succeeds on has the name and length its \<open>FileInfo\<close>
  reports (\<open>Length\<close> is what \<open>Size()\<close> returns). The entries of a directory carry the
  joined path that Walk passes on, in the order of their names.
\<close>

datatype oserror = ErrNotExist | ErrPermission | ErrOther

record FileInfo =
  Name :: string
  Length :: "64 word"
  IsDir :: bool

datatype fsnode =
    LstatFails oserror
  | File string "64 word"
  | Dir string "64 word" "(string \<times> fsnode) list"
  | DirUnreadable string "64 word" oserror

text \<open>
  \<open>walk\<close> and the loop over a directory's names. The callback gets the path, the
  \<open>FileInfo\<close> (nil when \<open>lstat\<close> failed) and the error of \<open>lstat\<close> or of reading the
  directory; a callback that returns an error stops the walk, and that error is the
  walk's result. The callback of this program never returns \<open>SkipDir\<close>, so the type of
  callback errors has no such value and Walk's special cases for it are left out.
\<close>

fun walk :: "(string \<Rightarrow> FileInfo option \<Rightarrow> oserror option \<Rightarrow> 's \<Rightarrow> 'e option \<times> 's)
      \<Rightarrow> string \<Rightarrow> fsnode \<Rightarrow> 's \<Rightarrow> 'e option \<times> 's"
and walk_names :: "(string \<Rightarrow> FileInfo option \<Rightarrow> oserror option \<Rightarrow> 's \<Rightarrow> 'e option \<times> 's)
      \<Rightarrow> (string \<times> fsnode) list \<Rightarrow> 's \<Rightarrow> 'e option \<times> 's"
where
  "walk walkFn path (LstatFails err) s = walkFn path None (Some err) s"
| "walk walkFn path (File name sz) s =
     walkFn path (Some \<lparr>Name = name, Length = sz, IsDir = False\<rparr>) None s"
| "walk walkFn path (DirUnreadable name sz err) s =
     walkFn path (Some \<lparr>Name = name, Length = sz, IsDir = True\<rparr>) (Some err) s"
| "walk walkFn path (Dir name sz names) s =
     (case walkFn path (Some \<lparr>Name = name, Length = sz, IsDir = True\<rparr>) None s of
        (Some e, s') \<Rightarrow> (Some e, s')
      | (None, s') \<Rightarrow> walk_names walkFn names s')"
| "walk_names walkFn [] s = (None, s)"
| "walk_names walkFn ((filename, node) # rest) s =
     (case walk walkFn filename node s of
        (Some e, s') \<Rightarrow> (Some e, s')
      | (None, s') \<Rightarrow> walk_names walkFn rest s')"

definition Walk :: "string \<Rightarrow> fsnode
      \<Rightarrow> (string \<Rightarrow> FileInfo option \<Rightarrow> oserror option \<Rightarrow> 's \<Rightarrow> 'e option \<times> 's)
      \<Rightarrow> 's \<Rightarrow> 'e option \<times> 's" where
  "Walk root node fn s = walk fn root node s"

subsection \<open>The SQLite table and the three kinds of statement\<close>

text \<open>
  The database holds table \<open>media\<close> (schema at lines 92 to 102), its rows in rowid
  order, and the largest rowid ever given out (\<open>AUTOINCREMENT\<close>). \<open>initDB\<close> creates the
  table only if it does not exist, so a fresh database is \<open>empty_db\<close>.
\<close>

record DB =
  media :: "MediaItem list"
  seq :: int

definition empty_db :: DB where
  "empty_db = \<lparr>media = [], seq = 0\<rparr>"

text \<open>
  A statement can fail for a reason that is not in the data (the file is locked, the disk
  fails): the argument \<open>fault\<close> of each statement is that error, if any.
  \<open>ConstraintViolation\<close> is the failure of the \<open>UNIQUE\<close> constraint on \<open>path\<close>.
\<close>

datatype dberror = ErrNoRows | ConstraintViolation | DriverError

text \<open>\<open>DB.Get\<close> of a \<open>SELECT COUNT( * ) FROM media WHERE ...\<close>.\<close>

definition Get_count :: "dberror option \<Rightarrow> (MediaItem \<Rightarrow> bool) \<Rightarrow> DB \<Rightarrow> dberror + int" where
  "Get_count fault cond db =
     (case fault of
        Some e \<Rightarrow> Inl e
      | None \<Rightarrow> Inr (int (length (filter cond (media db)))))"

text \<open>
  \<open>DB.Select\<close> of a \<open>SELECT * FROM media WHERE ... ORDER BY created_at DESC\<close>. SQL leaves
  the order of rows with equal \<open>created_at\<close> open; SQLite's sorter keeps them in the
  order of the scan, that is in rowid order, and so does the model.
\<close>

definition Select_media :: "dberror option \<Rightarrow> (MediaItem \<Rightarrow> bool) \<Rightarrow> DB
      \<Rightarrow> dberror + MediaItem list" where
  "Select_media fault cond db =
     (case fault of
        Some e \<Rightarrow> Inl e
      | None \<Rightarrow> Inr (rev (sort_key CreatedAt (rev (filter cond (media db))))))"

text \<open>
  \<open>DB.NamedExec\<close> of the \<open>INSERT INTO media (path, filename, size, type)\<close> of lines 182
  to 185, at time \<open>ts\<close>. The columns are \<open>NOT NULL\<close> and get Go values that are never
  null, so the only constraint that can fail is \<open>UNIQUE\<close> on \<open>path\<close>. A failed statement
  leaves the database as it was.
\<close>

definition NamedExec_insert :: "dberror option \<Rightarrow> nat \<Rightarrow> string \<Rightarrow> string \<Rightarrow> 64 word
      \<Rightarrow> string \<Rightarrow> DB \<Rightarrow> dberror option \<times> DB" where
  "NamedExec_insert fault ts path filename sz type db =
     (case fault of
        Some e \<Rightarrow> (Some e, db)
      | None \<Rightarrow>
          if path \<in> set (map Path (media db)) then (Some ConstraintViolation, db)
          else (None,
                \<lparr>media = media db @
                   [\<lparr>ID = seq db + 1, Path = path, Filename = filename, Size = sz,
                     Type = type, CreatedAt = ts\<rparr>],
                 seq = seq db + 1\<rparr>))"

section \<open>The handlers\<close>

text \<open>
  What a handler does not control: the Unicode case mapping of \<open>strings.ToLower\<close>, the
  driver failures of the two statements of a scan (by the path they are about), and the
  clock at the insert of a path.
\<close>

record Env =
  unicode_lower :: "string \<Rightarrow> string"
  get_fault :: "string \<Rightarrow> dberror option"
  insert_fault :: "string \<Rightarrow> dberror option"
  now :: "string \<Rightarrow> nat"

datatype walkerr = OSError oserror | NilInfoPanic

text \<open>
  The callback that \<open>scanDirectory\<close> gives to Walk (lines 153 to 193), on the pair of
  the local \<open>count\<close> (here \<open>cnt\<close>) and the database. With no error and no
  \<open>FileInfo\<close> the Go code would dereference nil; Walk never calls it so. The lines
  that the scan writes to the log are left out.
\<close>

fun walkFn :: "Env \<Rightarrow> string \<Rightarrow> FileInfo option \<Rightarrow> oserror option \<Rightarrow> int \<times> DB
      \<Rightarrow> walkerr option \<times> (int \<times> DB)" where
  "walkFn env path info (Some err) (cnt, db) = (Some (OSError err), (cnt, db))"
| "walkFn env path None None (cnt, db) = (Some NilInfoPanic, (cnt, db))"
| "walkFn env path (Some info) None (cnt, db) =
     (if IsDir info then (None, (cnt, db))
      else
        let ext = ToLower (unicode_lower env) (Ext path) in
        case supportedExtensions ext of
          None \<Rightarrow> (None, (cnt, db))
        | Some mediaType \<Rightarrow>
            (let found =
               (case Get_count (get_fault env path) (\<lambda>r. Path r = path) db of
                  Inl err \<Rightarrow> False
                | Inr existing \<Rightarrow> existing > 0)
             in
               if found then (None, (cnt, db))
               else
                 (case NamedExec_insert (insert_fault env path) (now env path)
                         path (Name info) (Length info) mediaType db of
                    (Some err, db') \<Rightarrow> (None, (cnt, db'))
                  | (None, db') \<Rightarrow> (None, (cnt + 1, db')))))"

text \<open>
  The request body after \<open>json.Decode\<close>: it does not decode, or it gives \<open>req.Path\<close>.
  The responses: 400 with a message, 500 with the error, a handler that panicked, or
  200 with the payload.
\<close>

datatype body = Undecodable string | Decoded string

datatype ('e, 'a) response =
    BadRequest string
  | InternalServerError 'e
  | Panicked
  | OK 'a

text \<open>
  \<open>scanDirectory\<close> (lines 135 to 209); \<open>root\<close> is what the file system holds at
  \<open>req.Path\<close>. The payload of the 200 response is \<open>count\<close>.
\<close>

definition scanDirectory :: "Env \<Rightarrow> body \<Rightarrow> fsnode \<Rightarrow> DB \<Rightarrow> (oserror, int) response \<times> DB" where
  "scanDirectory env b root db =
     (case b of
        Undecodable msg \<Rightarrow> (BadRequest msg, db)
      | Decoded path \<Rightarrow>
          if path = '''' then (BadRequest ''Path is required'', db)
          else
            (case Walk path root (walkFn env) (0, db) of
               (Some (OSError err), (cnt, db')) \<Rightarrow> (InternalServerError err, db')
             | (Some NilInfoPanic, (cnt, db')) \<Rightarrow> (Panicked, db')
             | (None, (cnt, db')) \<Rightarrow> (OK cnt, db')))"

text \<open>
  \<open>getMediaItems\<close> (lines 113 to 133): \<open>mediaType\<close> is the query parameter \<open>type\<close>,
  empty when absent.
\<close>

definition getMediaItems :: "dberror option \<Rightarrow> string \<Rightarrow> DB
      \<Rightarrow> (dberror, MediaItem list) response" where
  "getMediaItems fault mediaType db =
     (case (if mediaType \<noteq> ''''
            then Select_media fault (\<lambda>r. Type r = mediaType) db
            else Select_media fault (\<lambda>r. True) db) of
        Inl err \<Rightarrow> InternalServerError err
      | Inr items \<Rightarrow> OK items)"

text \<open>
  \<open>getStats\<close> (lines 211 to 235). Each of the three queries fills its field only when
  it succeeds; a failure other than \<open>ErrNoRows\<close> is logged, and the handler goes on.
  The result is the response and the lines logged.
\<close>

record Stats =
  Total :: int
  Videos :: int
  Images :: int

definition stat_field :: "dberror + int \<Rightarrow> int" where
  "stat_field r = (case r of Inl err \<Rightarrow> 0 | Inr n \<Rightarrow> n)"

definition stat_log :: "string \<Rightarrow> dberror + int \<Rightarrow> string list" where
  "stat_log msg r =
     (case r of
        Inl err \<Rightarrow> if err \<noteq> ErrNoRows then [msg] else []
      | Inr n \<Rightarrow> [])"

definition getStats :: "dberror option \<Rightarrow> dberror option \<Rightarrow> dberror option \<Rightarrow> DB
      \<Rightarrow> (dberror, Stats) response \<times> string list" where
  "getStats fault1 fault2 fault3 db =
     (let r1 = Get_count fault1 (\<lambda>r. True) db;
          r2 = Get_count fault2 (\<lambda>r. Type r = ''video'') db;
          r3 = Get_count fault3 (\<lambda>r. Type r = ''image'') db
      in (OK \<lparr>Total = stat_field r1, Videos = stat_field r2, Images = stat_field r3\<rparr>,
          stat_log ''Failed to get total count:'' r1 @
          stat_log ''Failed to get video count:'' r2 @
          stat_log ''Failed to get image count:'' r3))"

section \<open>Notions used by the statements and proofs\<close>

text \<open>
  The calls that Walk makes on a tree, in order, when no callback stops it; \<open>run\<close> makes
  them one after the other and stops at the first error a callback returns.
\<close>

type_synonym visit = "string \<times> FileInfo option \<times> oserror option"

fun visits :: "string \<Rightarrow> fsnode \<Rightarrow> visit list"
and visits_names :: "(string \<times> fsnode) list \<Rightarrow> visit list" where
  "visits path (LstatFails err) = [(path, None, Some err)]"
| "visits path (File name sz) =
     [(path, Some \<lparr>Name = name, Length = sz, IsDir = False\<rparr>, None)]"
| "visits path (DirUnreadable name sz err) =
     [(path, Some \<lparr>Name = name, Length = sz, IsDir = True\<rparr>, Some err)]"
| "visits path (Dir name sz names) =
     (path, Some \<lparr>Name = name, Length = sz, IsDir = True\<rparr>, None) # visits_names names"
| "visits_names [] = []"
| "visits_names ((filename, node) # rest) = visits filename node @ visits_names rest"

fun run :: "(string \<Rightarrow> FileInfo option \<Rightarrow> oserror option \<Rightarrow> 's \<Rightarrow> 'e option \<times> 's)
      \<Rightarrow> visit list \<Rightarrow> 's \<Rightarrow> 'e option \<times> 's" where
  "run fn [] s = (None, s)"
| "run fn ((path, info, err) # vs) s =
     (case fn path info err s of
        (Some e, s') \<Rightarrow> (Some e, s')
      | (None, s') \<Rightarrow> run fn vs s')"

text \<open>The paths that have a row.\<close>

definition paths :: "DB \<Rightarrow> string set" where
  "paths db = set (map Path (media db))"

text \<open>
  The first error that \<open>lstat\<close> or the reading of a directory reports in a tree, in the
  order of the walk.
\<close>

fun first_error :: "fsnode \<Rightarrow> oserror option"
and first_error_names :: "(string \<times> fsnode) list \<Rightarrow> oserror option" where
  "first_error (LstatFails err) = Some err"
| "first_error (File name sz) = None"
| "first_error (DirUnreadable name sz err) = Some err"
| "first_error (Dir name sz names) = first_error_names names"
| "first_error_names [] = None"
| "first_error_names ((filename, node) # rest) =
     (case first_error node of Some err \<Rightarrow> Some err | None \<Rightarrow> first_error_names rest)"

text \<open>
  The databases that scans lead to. The two reading handlers return no database: they
  run \<open>SELECT\<close> statements only.
\<close>

inductive reaches :: "DB \<Rightarrow> DB \<Rightarrow> bool" where
  reaches_refl: "reaches db db"
| reaches_scan:
    "reaches db db1 \<Longrightarrow> scanDirectory env b root db1 = (r, db2) \<Longrightarrow> reaches db db2"

text \<open>
  A store that never fails, on a clock that stands still, and the tree of the scenario
  of the specification: \<open>a.mp4\<close> (10 bytes), \<open>b.jpg\<close> (20 bytes), \<open>c.txt\<close> (5 bytes) and
  \<open>sub/d.png\<close> (30 bytes) under \<open>root\<close>.
\<close>

definition env0 :: Env where
  "env0 = \<lparr>unicode_lower = (\<lambda>s. s), get_fault = (\<lambda>p. None),
           insert_fault = (\<lambda>p. None), now = (\<lambda>p. 0)\<rparr>"

definition scenario :: fsnode where
  "scenario = Dir ''root'' 0
     [(''root/a.mp4'', File ''a.mp4'' 10),
      (''root/b.jpg'', File ''b.jpg'' 20),
      (''root/c.txt'', File ''c.txt'' 5),
      (''root/sub'', Dir ''sub'' 0 [(''root/sub/d.png'', File ''d.png'' 30)])]"


text \<open>The database that a first scan of the scenario leaves, on the clock of \<open>env0\<close>.\<close>

definition scenario_db :: DB where
  "scenario_db = \<lparr>media =
     [\<lparr>ID = 1, Path = ''root/a.mp4'', Filename = ''a.mp4'', Size = 10,
        Type = ''video'', CreatedAt = 0\<rparr>,
      \<lparr>ID = 2, Path = ''root/b.jpg'', Filename = ''b.jpg'', Size = 20,
        Type = ''image'', CreatedAt = 0\<rparr>,
      \<lparr>ID = 3, Path = ''root/sub/d.png'', Filename = ''d.png'', Size = 30,
        Type = ''image'', CreatedAt = 0\<rparr>],
     seq = 3\<rparr>"

text \<open>
  A store whose driver fails every insert of one path, and the database that holds the
  row of \<open>a.mp4\<close> only.
\<close>

definition env_insert_fails :: "string \<Rightarrow> Env" where
  "env_insert_fails p =
     env0\<lparr>insert_fault := (\<lambda>q. if q = p then Some DriverError else None)\<rparr>"

definition db_a :: DB where
  "db_a = \<lparr>media = [\<lparr>ID = 1, Path = ''root/a.mp4'', Filename = ''a.mp4'', Size = 10,
                  Type = ''video'', CreatedAt = 0\<rparr>], seq = 1\<rparr>"

text \<open>The database that holds the rows of \<open>a.mp4\<close> and \<open>d.png\<close>, and no row of \<open>b.jpg\<close>.\<close>

definition db_a_d :: DB where
  "db_a_d = \<lparr>media =
     [\<lparr>ID = 1, Path = ''root/a.mp4'', Filename = ''a.mp4'', Size = 10,
        Type = ''video'', CreatedAt = 0\<rparr>,
      \<lparr>ID = 2, Path = ''root/sub/d.png'', Filename = ''d.png'', Size = 30,
        Type = ''image'', CreatedAt = 0\<rparr>],
     seq = 2\<rparr>"

section \<open>Walk as a run over its visits\<close>

lemma run_append:
  "run fn (xs @ ys) s =
     (case run fn xs s of (Some e, s') \<Rightarrow> (Some e, s') | (None, s') \<Rightarrow> run fn ys s')"
  by (induction xs arbitrary: s) (auto split: prod.splits option.splits)

lemma walk_run:
  "walk fn path node s = run fn (visits path node) s"
  "walk_names fn names s = run fn (visits_names names) s"
  by (induction fn path node s and fn names s rule: walk_walk_names.induct)
     (auto simp: run_append split: prod.splits option.splits)

section \<open>One call of the callback\<close>

lemma filter_Path_Nil [simp]:
  "(filter (\<lambda>r. Path r = p) xs = []) = (p \<notin> Path ` set xs)"
  by (auto simp: filter_empty_conv)

lemma walkFn_cases:
  assumes "walkFn env path info err (c, db) = (r, (c', db'))"
  shows "(c' = c \<and> db' = db) \<or>
         (r = None \<and> c' = c + 1 \<and> path \<notin> paths db \<and> seq db' = seq db + 1 \<and> err = None \<and>
          (\<exists>i. info = Some i \<and> \<not> IsDir i \<and>
            (\<exists>ty. supportedExtensions (ToLower (unicode_lower env) (Ext path)) = Some ty \<and>
             media db' = media db @ [\<lparr>ID = seq db + 1, Path = path, Filename = Name i,
                Size = Length i, Type = ty, CreatedAt = now env path\<rparr>])))"
  using assms
  by (cases "(env, path, info, err, (c, db))" rule: walkFn.cases)
     (auto simp: paths_def NamedExec_insert_def Get_count_def Let_def
           split: if_splits option.splits sum.splits prod.splits)

lemma walkFn_settled:
  assumes "walkFn env path info err (c, db) = (None, (c0, db0))"
    and "paths db0 \<subseteq> paths db2"
  shows "walkFn (env\<lparr>now := t2, get_fault := g2\<rparr>) path info err (c2, db2) = (None, (c2, db2))"
  using assms
  by (cases "(env, path, info, err, (c, db))" rule: walkFn.cases)
     (auto simp: paths_def NamedExec_insert_def Get_count_def Let_def
           split: if_splits option.splits sum.splits prod.splits)

lemma walkFn_error:
  assumes "walkFn env path info err (c, db) = (Some e, s)"
  shows "s = (c, db) \<and> walkFn env' path info err (c2, db2) = (Some e, (c2, db2))"
  using assms
  by (cases "(env, path, info, err, (c, db))" rule: walkFn.cases)
     (auto simp: Let_def split: if_splits option.splits sum.splits prod.splits)

section \<open>A whole walk\<close>

text \<open>
  A walk only appends rows: as many as it adds to the count, each with the type that
  the table gives for the lower-cased extension of its path.
\<close>

lemma run_appends:
  "run (walkFn env) vs (c, db) = (r, (c1, db1)) \<Longrightarrow>
   \<exists>new. media db1 = media db @ new \<and> c1 = c + int (length new) \<and>
         seq db1 = seq db + int (length new) \<and>
         list_all (\<lambda>row. supportedExtensions (ToLower (unicode_lower env) (Ext (Path row)))
                      = Some (Type row)) new"
proof (induction vs arbitrary: c db)
  case Nil
  then show ?case by simp
next
  case (Cons v vs)
  obtain path info err where v: "v = (path, info, err)" by (cases v)
  obtain r0 c0 db0 where step: "walkFn env path info err (c, db) = (r0, (c0, db0))"
    by (metis surj_pair)
  have one: "\<exists>new. media db0 = media db @ new \<and> c0 = c + int (length new) \<and>
         seq db0 = seq db + int (length new) \<and>
         list_all (\<lambda>row. supportedExtensions (ToLower (unicode_lower env) (Ext (Path row)))
                      = Some (Type row)) new"
    using walkFn_cases [OF step] by auto
  show ?case
  proof (cases r0)
    case None
    with Cons.prems v step have "run (walkFn env) vs (c0, db0) = (r, (c1, db1))" by simp
    from Cons.IH [OF this] one show ?thesis by auto
  next
    case (Some e)
    with Cons.prems v step have "c1 = c0" "db1 = db0" by simp_all
    with one show ?thesis by simp
  qed
qed

lemma run_paths_mono:
  "run (walkFn env) vs (c, db) = (r, (c1, db1)) \<Longrightarrow> paths db \<subseteq> paths db1"
  using run_appends [of env vs c db r c1 db1] by (auto simp: paths_def)

text \<open>
  After a walk, the same walk over a database that has at least the same paths changes
  nothing and ends the same way, whatever the clock and the failures of the existence
  query then are.
\<close>

lemma run_idem:
  "run (walkFn env) vs (c, db) = (r, (c1, db1)) \<Longrightarrow> paths db1 \<subseteq> paths db2 \<Longrightarrow>
   run (walkFn (env\<lparr>now := t2, get_fault := g2\<rparr>)) vs (c2, db2) = (r, (c2, db2))"
proof (induction vs arbitrary: c db)
  case Nil
  then show ?case by simp
next
  case (Cons v vs)
  obtain path info err where v: "v = (path, info, err)" by (cases v)
  obtain r0 c0 db0 where step: "walkFn env path info err (c, db) = (r0, (c0, db0))"
    by (metis surj_pair)
  show ?case
  proof (cases r0)
    case None
    with Cons.prems v step have rest: "run (walkFn env) vs (c0, db0) = (r, (c1, db1))" by simp
    have "paths db0 \<subseteq> paths db2"
      using run_paths_mono [OF rest] Cons.prems(2) by blast
    with step None
    have "walkFn (env\<lparr>now := t2, get_fault := g2\<rparr>) path info err (c2, db2) = (None, (c2, db2))"
      using walkFn_settled by blast
    with Cons.IH [OF rest Cons.prems(2)] v show ?thesis by simp
  next
    case (Some e)
    with Cons.prems v step have "r = Some e" by simp
    moreover have "walkFn (env\<lparr>now := t2, get_fault := g2\<rparr>) path info err (c2, db2)
        = (Some e, (c2, db2))"
      using walkFn_error step Some by blast
    ultimately show ?thesis using v by simp
  qed
qed

section \<open>The scan handler\<close>

lemma scan_run:
  "path \<noteq> '''' \<Longrightarrow> scanDirectory env (Decoded path) root db =
     (case run (walkFn env) (visits path root) (0, db) of
        (Some (OSError err), (cnt, db')) \<Rightarrow> (InternalServerError err, db')
      | (Some NilInfoPanic, (cnt, db')) \<Rightarrow> (Panicked, db')
      | (None, (cnt, db')) \<Rightarrow> (OK cnt, db'))"
  by (simp add: scanDirectory_def Walk_def walk_run)

lemma scan_no_walk:
  "scanDirectory env (Undecodable msg) root db = (BadRequest msg, db)"
  "scanDirectory env (Decoded '''') root db = (BadRequest ''Path is required'', db)"
  by (simp_all add: scanDirectory_def)

lemma scan_appends:
  assumes "scanDirectory env b root db = (r, db')"
  shows "\<exists>new. media db' = media db @ new \<and> (\<forall>n. r = OK n \<longrightarrow> n = int (length new)) \<and>
           seq db' = seq db + int (length new) \<and>
           list_all (\<lambda>row. supportedExtensions (ToLower (unicode_lower env) (Ext (Path row)))
                      = Some (Type row)) new"
proof (cases "\<exists>path. b = Decoded path \<and> path \<noteq> ''''")
  case False
  then have "(\<exists>msg. b = Undecodable msg) \<or> b = Decoded ''''" by (cases b) auto
  with assms show ?thesis by (auto simp: scan_no_walk)
next
  case True
  then obtain path where b: "b = Decoded path" "path \<noteq> ''''" by blast
  obtain e c1 d1 where r: "run (walkFn env) (visits path root) (0, db) = (e, (c1, d1))"
    by (metis surj_pair)
  from run_appends [OF r] assms b r show ?thesis
    by (auto simp: scan_run split: option.splits walkerr.splits)
qed

text \<open>Scans keep the paths of the table distinct.\<close>

lemma run_distinct:
  "run (walkFn env) vs (c, db) = (r, (c1, db1)) \<Longrightarrow> distinct (map Path (media db)) \<Longrightarrow>
   distinct (map Path (media db1))"
proof (induction vs arbitrary: c db)
  case Nil
  then show ?case by simp
next
  case (Cons v vs)
  obtain path info err where v: "v = (path, info, err)" by (cases v)
  obtain r0 c0 db0 where step: "walkFn env path info err (c, db) = (r0, (c0, db0))"
    by (metis surj_pair)
  have one: "distinct (map Path (media db0))"
    using walkFn_cases [OF step] Cons.prems(2) by (auto simp: paths_def)
  show ?case
  proof (cases r0)
    case None
    with Cons.prems v step have "run (walkFn env) vs (c0, db0) = (r, (c1, db1))" by simp
    from Cons.IH [OF this one] show ?thesis .
  next
    case (Some e)
    with Cons.prems v step have "db1 = db0" by simp
    with one show ?thesis by simp
  qed
qed

lemma scan_distinct:
  assumes "scanDirectory env b root db = (r, db')" and "distinct (map Path (media db))"
  shows "distinct (map Path (media db'))"
proof (cases "\<exists>path. b = Decoded path \<and> path \<noteq> ''''")
  case False
  then have "(\<exists>msg. b = Undecodable msg) \<or> b = Decoded ''''" by (cases b) auto
  with assms show ?thesis by (auto simp: scan_no_walk)
next
  case True
  then obtain path where b: "b = Decoded path" "path \<noteq> ''''" by blast
  obtain e c1 d1 where r: "run (walkFn env) (visits path root) (0, db) = (e, (c1, d1))"
    by (metis surj_pair)
  from run_distinct [OF r assms(2)] assms(1) b r show ?thesis
    by (auto simp: scan_run split: option.splits walkerr.splits)
qed

text \<open>How a walk ends depends on the tree only: it ends with the tree's first error.\<close>

lemma walkFn_fst:
  "fst (walkFn env path info err s) =
     (case err of Some x \<Rightarrow> Some (OSError x)
      | None \<Rightarrow> (case info of None \<Rightarrow> Some NilInfoPanic | Some i \<Rightarrow> None))"
  by (cases "(env, path, info, err, s)" rule: walkFn.cases)
     (auto simp: Let_def split: if_splits option.splits sum.splits prod.splits)

lemma walk_fst:
  "fst (walk (walkFn env) path node s) = map_option OSError (first_error node)"
  "fst (walk_names (walkFn env) names s) = map_option OSError (first_error_names names)"
proof (induction node and names arbitrary: path s and s rule: first_error_first_error_names.induct)
  case (4 name sz names)
  show ?case
    using 4 [of "snd (walkFn env path (Some \<lparr>Name = name, Length = sz, IsDir = True\<rparr>) None s)"]
      walkFn_fst [of env path "Some \<lparr>Name = name, Length = sz, IsDir = True\<rparr>" None s]
    by (auto split: prod.splits option.splits)
next
  case (6 filename node rest)
  show ?case
    using 6(1) [of filename s] 6(2) [of "snd (walk (walkFn env) filename node s)"]
    by (auto split: prod.splits option.splits)
qed (simp_all add: walkFn_fst)

lemma scan_fst:
  "path \<noteq> '''' \<Longrightarrow>
   (case first_error root of
      Some err \<Rightarrow> fst (scanDirectory env (Decoded path) root db) = InternalServerError err
    | None \<Rightarrow> (\<exists>n. fst (scanDirectory env (Decoded path) root db) = OK n))"
  using walk_fst(1) [of env path root "(0, db)"]
  by (cases "first_error root")
     (auto simp: scanDirectory_def Walk_def split: prod.splits option.splits walkerr.splits)

lemma scan_outcome_fixed:
  "(\<exists>n. fst (scanDirectory env b root db) = OK n) =
   (\<exists>m. fst (scanDirectory env2 b root db2) = OK m)"
proof (cases "\<exists>path. b = Decoded path \<and> path \<noteq> ''''")
  case False
  then have "(\<exists>msg. b = Undecodable msg) \<or> b = Decoded ''''" by (cases b) auto
  then show ?thesis by (auto simp: scan_no_walk)
next
  case True
  then obtain path where b: "b = Decoded path" "path \<noteq> ''''" by blast
  show ?thesis
    using scan_fst [OF b(2), where root = root and env = env and db = db]
      scan_fst [OF b(2), where root = root and env = env2 and db = db2] b(1)
    by (cases "first_error root") auto
qed

lemma visits_names_append:
  "visits_names (xs @ ys) = visits_names xs @ visits_names ys"
  by (induction xs) auto


lemma walk_names_append:
  "walk_names fn (xs @ ys) s =
     (case walk_names fn xs s of
        (Some e, s') \<Rightarrow> (Some e, s')
      | (None, s') \<Rightarrow> walk_names fn ys s')"
  by (auto simp: walk_run visits_names_append run_append split: prod.splits option.splits)

text \<open>A file whose insert the driver fails leaves the state of the walk as it was.\<close>

lemma walkFn_insert_fault:
  "insert_fault env path = Some e \<Longrightarrow>
   walkFn env path (Some \<lparr>Name = name, Length = sz, IsDir = False\<rparr>) None s = (None, s)"
  by (cases s)
     (auto simp: NamedExec_insert_def Get_count_def Let_def
           split: if_splits option.splits sum.splits prod.splits)

lemma walk_names_skips:
  "insert_fault env path = Some e \<Longrightarrow>
   walk_names (walkFn env) (before @ (path, File name sz) # rest) s =
   walk_names (walkFn env) (before @ rest) s"
  by (simp add: walk_names_append walkFn_insert_fault del: walkFn.simps
        split: prod.splits option.splits)

text \<open>What the callback does with a file according to the outcome of the insert.\<close>

lemma walkFn_insert_fails:
  "\<not> IsDir info \<Longrightarrow>
   supportedExtensions (ToLower (unicode_lower env) (Ext path)) = Some ty \<Longrightarrow>
   NamedExec_insert (insert_fault env path) (now env path) path (Name info) (Length info) ty db
     = (Some e, db1) \<Longrightarrow>
   walkFn env path (Some info) None (c, db) = (None, (c, db))"
  by (auto simp: NamedExec_insert_def Get_count_def Let_def
           split: if_splits option.splits sum.splits prod.splits)

lemma walkFn_insert_succeeds:
  "\<not> IsDir info \<Longrightarrow>
   supportedExtensions (ToLower (unicode_lower env) (Ext path)) = Some ty \<Longrightarrow>
   NamedExec_insert (insert_fault env path) (now env path) path (Name info) (Length info) ty db
     = (None, db1) \<Longrightarrow>
   walkFn env path (Some info) None (c, db) = (None, (c + 1, db1))"
  by (auto simp: NamedExec_insert_def Get_count_def Let_def
           split: if_splits option.splits sum.splits prod.splits)

lemma walk_names_goes_on:
  assumes "walk_names (walkFn env) before s0 = (None, (c, db))"
    and "supportedExtensions (ToLower (unicode_lower env) (Ext path)) = Some ty"
    and "NamedExec_insert (insert_fault env path) (now env path) path name sz ty db = (Some e, db1)"
  shows "walk_names (walkFn env) (before @ (path, File name sz) # rest) s0 =
         walk_names (walkFn env) rest (c, db)"
proof -
  have "walkFn env path (Some \<lparr>Name = name, Length = sz, IsDir = False\<rparr>) None (c, db)
      = (None, (c, db))"
    using walkFn_insert_fails [of "\<lparr>Name = name, Length = sz, IsDir = False\<rparr>" env path ty db e db1 c]
      assms(2,3) by simp
  then show ?thesis
    using assms(1) by (simp add: walk_names_append del: walkFn.simps)
qed

lemma walk_skips:
  assumes "insert_fault env path = Some e"
  shows "walk (walkFn env) p (Dir dname dsz (before @ (path, File name sz) # rest)) s =
         walk (walkFn env) p (Dir dname dsz (before @ rest)) s"
  by (auto simp: walk_names_skips [OF assms] simp del: walkFn.simps
           split: prod.splits option.splits)

lemma scan_skips:
  assumes "insert_fault env path = Some e"
  shows "scanDirectory env b (Dir dname dsz (before @ (path, File name sz) # rest)) db =
         scanDirectory env b (Dir dname dsz (before @ rest)) db"
  unfolding scanDirectory_def Walk_def walk_skips [OF assms] ..

section \<open>The table of extensions\<close>

lemma supported_video:
  "(supportedExtensions e = Some ''video'') =
     (e \<in> {''.mp4'', ''.avi'', ''.mkv'', ''.mov'', ''.wmv'', ''.flv'', ''.webm''})"
  by (simp add: supportedExtensions_def)

lemma supported_image:
  "(supportedExtensions e = Some ''image'') = (e \<in> {''.jpg'', ''.jpeg'', ''.png'', ''.gif'', ''.webp''})"
  by (simp add: supportedExtensions_def)

lemma supported_types:
  "supportedExtensions e = Some ty \<Longrightarrow> ty = ''video'' \<or> ty = ''image''"
  by (auto simp: supportedExtensions_def split: if_splits)

section \<open>The reading handlers\<close>

lemma count_split:
  "list_all (\<lambda>r. Type r = ''video'' \<or> Type r = ''image'') xs \<Longrightarrow>
   length (filter (\<lambda>r. Type r = ''video'') xs) + length (filter (\<lambda>r. Type r = ''image'') xs)
     = length xs"
  by (induction xs) auto

lemma reaches_types:
  "reaches db0 db \<Longrightarrow> list_all (\<lambda>r. Type r = ''video'' \<or> Type r = ''image'') (media db0) \<Longrightarrow>
   list_all (\<lambda>r. Type r = ''video'' \<or> Type r = ''image'') (media db)"
proof (induction rule: reaches.induct)
  case (reaches_refl db)
  then show ?case by simp
next
  case (reaches_scan db db1 env b root r db2)
  from scan_appends [OF reaches_scan.hyps(2)] obtain new where
    new: "media db2 = media db1 @ new"
      "list_all (\<lambda>row. supportedExtensions (ToLower (unicode_lower env) (Ext (Path row)))
                      = Some (Type row)) new"
    by blast
  from new(2) have "list_all (\<lambda>r. Type r = ''video'' \<or> Type r = ''image'') new"
    by (auto simp: list_all_iff dest: supported_types)
  with reaches_scan new(1) show ?case by simp
qed

lemma newest_first:
  "sorted_wrt (\<lambda>a b. CreatedAt b \<le> CreatedAt a) (rev (sort_key CreatedAt xs))"
proof -
  have "sorted (map CreatedAt (sort_key CreatedAt xs))" by (rule sorted_sort_key)
  then have "sorted_wrt (\<lambda>a b. CreatedAt a \<le> CreatedAt b) (sort_key CreatedAt xs)"
    by (simp add: sorted_map)
  then show ?thesis by (simp add: sorted_wrt_rev)
qed

lemma Select_media_ok:
  "\<exists>items. Select_media None cond db = Inr items \<and>
     mset items = mset (filter cond (media db)) \<and>
     sorted_wrt (\<lambda>a b. CreatedAt b \<le> CreatedAt a) items"
  by (simp add: Select_media_def newest_first)

section \<open>The scenario\<close>

lemma scenario_scan:
  "scanDirectory env0 (Decoded ''root'') scenario empty_db = (OK 3, scenario_db)"
  by code_simp

lemma scenario_scan_any_clock:
  "insert_fault env = (\<lambda>p. None) \<Longrightarrow>
   scanDirectory env (Decoded ''root'') scenario empty_db =
     (OK 3, \<lparr>media =
       [\<lparr>ID = 1, Path = ''root/a.mp4'', Filename = ''a.mp4'', Size = 10,
          Type = ''video'', CreatedAt = now env ''root/a.mp4''\<rparr>,
        \<lparr>ID = 2, Path = ''root/b.jpg'', Filename = ''b.jpg'', Size = 20,
          Type = ''image'', CreatedAt = now env ''root/b.jpg''\<rparr>,
        \<lparr>ID = 3, Path = ''root/sub/d.png'', Filename = ''d.png'', Size = 30,
          Type = ''image'', CreatedAt = now env ''root/sub/d.png''\<rparr>],
       seq = 3\<rparr>)"
proof -
  assume nofault: "insert_fault env = (\<lambda>p. None)"
  have ext: "supportedExtensions (ToLower (unicode_lower env) (Ext ''root/a.mp4'')) = Some ''video''"
    "supportedExtensions (ToLower (unicode_lower env) (Ext ''root/b.jpg'')) = Some ''image''"
    "supportedExtensions (ToLower (unicode_lower env) (Ext ''root/c.txt'')) = None"
    "supportedExtensions (ToLower (unicode_lower env) (Ext ''root/sub/d.png'')) = Some ''image''"
    by code_simp+
  show ?thesis
    by (simp add: scanDirectory_def Walk_def scenario_def empty_db_def ext nofault
          Get_count_def NamedExec_insert_def split: option.split)
qed

section \<open>The claims\<close>

text \<open>
  C1. Scanning is idempotent. When a scan of a tree has answered, a second scan of the
  same tree on the database the first one left changes nothing in the database; it
  answers with count 0 where the first answered with a count (and with the same error
  where the first was aborted), so the statistics after both runs are the same. The
  second scan may run at other times and meet other failures of the existence query;
  the driver failures of inserts are those of the first run (none, for a store that
  works). No scan gives two rows the same path.
\<close>

theorem scan_idempotent:
  assumes first: "scanDirectory env b root db = (r1, db1)"
    and second: "scanDirectory (env\<lparr>now := t2, get_fault := g2\<rparr>) b root db1 = (r2, db2)"
  shows "db2 = db1 \<and>
         r2 = (case r1 of OK n \<Rightarrow> OK 0 | other \<Rightarrow> other) \<and>
         getStats None None None db2 = getStats None None None db1 \<and>
         (distinct (map Path (media db)) \<longrightarrow> distinct (map Path (media db2)))"
proof (cases "\<exists>path. b = Decoded path \<and> path \<noteq> ''''")
  case False
  then have "(\<exists>msg. b = Undecodable msg) \<or> b = Decoded ''''" by (cases b) auto
  with first second show ?thesis by (auto simp: scan_no_walk)
next
  case True
  then obtain path where b: "b = Decoded path" "path \<noteq> ''''" by blast
  obtain e c1 d1 where r: "run (walkFn env) (visits path root) (0, db) = (e, (c1, d1))"
    by (metis surj_pair)
  with first b have d1: "d1 = db1"
    by (auto simp: scan_run split: option.splits walkerr.splits)
  have "run (walkFn (env\<lparr>now := t2, get_fault := g2\<rparr>)) (visits path root) (0, db1)
      = (e, (0, db1))"
    using run_idem [OF r [unfolded d1] subset_refl] by simp
  with first second b r have "db2 = db1 \<and>
         r2 = (case r1 of OK n \<Rightarrow> OK 0 | other \<Rightarrow> other) \<and>
         getStats None None None db2 = getStats None None None db1"
    by (auto simp: scan_run split: option.splits walkerr.splits)
  with scan_distinct [OF first] show ?thesis by simp
qed

theorem scan_idempotent_witness:
  "scanDirectory env0 (Decoded ''root'') scenario empty_db = (OK 3, scenario_db) \<and>
   scanDirectory (env0\<lparr>now := (\<lambda>p. 7), get_fault := (\<lambda>p. Some DriverError)\<rparr>)
     (Decoded ''root'') scenario scenario_db = (OK 0, scenario_db)"
proof -
  have first: "scanDirectory env0 (Decoded ''root'') scenario empty_db = (OK 3, scenario_db)"
    by code_simp
  from scan_idempotent [OF first surjective_pairing,
      where ?t2.0 = "\<lambda>p. 7" and ?g2.0 = "\<lambda>p. Some DriverError"] first
  show ?thesis by (simp add: prod_eq_iff)
qed




text \<open>
  C3. The table maps exactly the seven extensions listed to \<open>video\<close> and the five listed
  to \<open>image\<close>, and to nothing else. The lookup is on the lower-cased extension of
  the path, so \<open>FILE.MP4\<close>, \<open>file.Mp4\<close> and \<open>file.mp4\<close> are videos, and two ASCII
  extensions that lower-case to the same bytes classify alike. Every row that a scan
  adds has the type the table gives for the lower-cased extension of its path; a file
  whose extension is not in the table is therefore never inserted.
\<close>

theorem classification_by_extension:
  "((supportedExtensions e = Some ''video'') =
      (e \<in> {''.mp4'', ''.avi'', ''.mkv'', ''.mov'', ''.wmv'', ''.flv'', ''.webm''})) \<and>
   ((supportedExtensions e = Some ''image'') =
      (e \<in> {''.jpg'', ''.jpeg'', ''.png'', ''.gif'', ''.webp''})) \<and>
   (\<forall>ty. supportedExtensions e = Some ty \<longrightarrow> ty = ''video'' \<or> ty = ''image'') \<and>
   supportedExtensions (ToLower ul (Ext ''FILE.MP4'')) = Some ''video'' \<and>
   supportedExtensions (ToLower ul (Ext ''file.Mp4'')) = Some ''video'' \<and>
   supportedExtensions (ToLower ul (Ext ''file.mp4'')) = Some ''video'' \<and>
   (list_all (\<lambda>c. of_char c < (128::nat)) e1 \<and> list_all (\<lambda>c. of_char c < (128::nat)) e2 \<and>
    map lower_byte e1 = map lower_byte e2 \<longrightarrow>
      supportedExtensions (ToLower ul e1) = supportedExtensions (ToLower ul e2)) \<and>
   (\<forall>r db'. scanDirectory env b root db = (r, db') \<longrightarrow>
      (\<exists>new. media db' = media db @ new \<and>
         list_all (\<lambda>row. supportedExtensions (ToLower (unicode_lower env) (Ext (Path row)))
                      = Some (Type row)) new))"
proof -
  have ex: "supportedExtensions (ToLower ul (Ext ''FILE.MP4'')) = Some ''video''"
    "supportedExtensions (ToLower ul (Ext ''file.Mp4'')) = Some ''video''"
    "supportedExtensions (ToLower ul (Ext ''file.mp4'')) = Some ''video''"
    by code_simp+
  have ci: "list_all (\<lambda>c. of_char c < (128::nat)) e1 \<and> list_all (\<lambda>c. of_char c < (128::nat)) e2 \<and>
    map lower_byte e1 = map lower_byte e2 \<longrightarrow>
      supportedExtensions (ToLower ul e1) = supportedExtensions (ToLower ul e2)"
    by (simp add: ToLower_def)
  have ins: "\<forall>r db'. scanDirectory env b root db = (r, db') \<longrightarrow>
      (\<exists>new. media db' = media db @ new \<and>
         list_all (\<lambda>row. supportedExtensions (ToLower (unicode_lower env) (Ext (Path row)))
                      = Some (Type row)) new)"
  proof (intro allI impI)
    fix r db'
    assume "scanDirectory env b root db = (r, db')"
    from scan_appends [OF this] show
      "\<exists>new. media db' = media db @ new \<and>
         list_all (\<lambda>row. supportedExtensions (ToLower (unicode_lower env) (Ext (Path row)))
                      = Some (Type row)) new"
      by blast
  qed
  from supported_video [of e] supported_image [of e] supported_types [of e] ex ci ins
  show ?thesis by blast
qed

theorem classification_by_extension_witness:
  "scanDirectory env0 (Decoded ''root'') scenario empty_db = (OK 3, scenario_db) \<and>
   list_all (\<lambda>row. supportedExtensions (ToLower (unicode_lower env0) (Ext (Path row)))
                = Some (Type row)) (media scenario_db) \<and>
   supportedExtensions (ToLower (unicode_lower env0) (Ext ''root/c.txt'')) = None \<and>
   ''root/c.txt'' \<notin> set (map Path (media scenario_db)) \<and>
   supportedExtensions (ToLower (unicode_lower env0) ''.JPEG'') =
     supportedExtensions (ToLower (unicode_lower env0) ''.jpeg'')"
proof -
  have 1: "supportedExtensions (ToLower (unicode_lower env0) (Ext ''root/c.txt'')) = None"
    by code_simp
  have 2: "''root/c.txt'' \<notin> set (map Path (media scenario_db))"
    by code_simp
  have 3: "list_all (\<lambda>c. of_char c < (128::nat)) ''.JPEG'' \<and>
      list_all (\<lambda>c. of_char c < (128::nat)) ''.jpeg'' \<and>
      map lower_byte ''.JPEG'' = map lower_byte ''.jpeg''"
    by code_simp
  have 4: "media empty_db = []" by (simp add: empty_db_def)
  from classification_by_extension [where env = env0 and b = "Decoded ''root''"
      and root = scenario and db = empty_db and ?e1.0 = "''.JPEG''" and ?e2.0 = "''.jpeg''"
      and ul = "unicode_lower env0"]
    scenario_scan 1 2 3 4
  show ?thesis by auto
qed

text \<open>
  C4. The store rejects a second row with the same path. After a direct insert of a
  path, a second direct insert of that path, with whatever other columns, fails with
  \<open>ConstraintViolation\<close> and leaves the database as it was; the first insert succeeds
  and appends its row when the path had no row. A table with distinct paths keeps them
  distinct. (Direct calls: no driver failure is injected.)
\<close>

theorem store_rejects_duplicate_path:
  assumes "NamedExec_insert None ts1 path filename1 sz1 type1 db = (r1, db1)"
  shows "NamedExec_insert None ts2 path filename2 sz2 type2 db1 = (Some ConstraintViolation, db1) \<and>
         (path \<notin> set (map Path (media db)) \<longrightarrow>
            r1 = None \<and>
            media db1 = media db @ [\<lparr>ID = seq db + 1, Path = path, Filename = filename1,
               Size = sz1, Type = type1, CreatedAt = ts1\<rparr>]) \<and>
         (distinct (map Path (media db)) \<longrightarrow> distinct (map Path (media db1)))"
  using assms by (auto simp: NamedExec_insert_def split: if_splits)

theorem store_rejects_duplicate_path_witness:
  "NamedExec_insert None 0 ''root/a.mp4'' ''a.mp4'' 10 ''video'' empty_db = (None, db_a) \<and>
   NamedExec_insert None 5 ''root/a.mp4'' ''other'' 11 ''image'' db_a = (Some ConstraintViolation, db_a)"
proof -
  have 1: "NamedExec_insert None 0 ''root/a.mp4'' ''a.mp4'' 10 ''video'' empty_db = (None, db_a)"
    by code_simp
  from store_rejects_duplicate_path [OF 1, where ?ts2.0 = 5 and ?filename2.0 = "''other''"
      and ?sz2.0 = 11 and ?type2.0 = "''image''"] 1
  show ?thesis by simp
qed

text \<open>
  C5. When \<open>lstat\<close> fails on the root path, or the root is a directory whose names
  cannot be read, the scan never answers with a count: for a request with a non-empty
  path the response is the 500 error that carries that error, and the database is left
  as it was.
\<close>

theorem missing_root_is_error:
  assumes "root = LstatFails err \<or> root = DirUnreadable name sz err"
  shows "(\<forall>n. fst (scanDirectory env b root db) \<noteq> OK n) \<and>
         (\<forall>path. b = Decoded path \<and> path \<noteq> '''' \<longrightarrow>
            scanDirectory env b root db = (InternalServerError err, db))"
  using assms
  by (cases b) (auto simp: scanDirectory_def Walk_def)

theorem missing_root_is_error_witness:
  "scanDirectory env0 (Decoded ''/no/such/dir'') (LstatFails ErrNotExist) scenario_db
     = (InternalServerError ErrNotExist, scenario_db) \<and>
   scanDirectory env0 (Decoded ''/root'') (DirUnreadable ''root'' 0 ErrPermission) scenario_db
     = (InternalServerError ErrPermission, scenario_db)"
  using missing_root_is_error [where root = "LstatFails ErrNotExist" and err = ErrNotExist
      and env = env0 and b = "Decoded ''/no/such/dir''" and db = scenario_db]
    missing_root_is_error [where root = "DirUnreadable ''root'' 0 ErrPermission"
      and err = ErrPermission and name = "''root''" and sz = 0
      and env = env0 and b = "Decoded ''/root''" and db = scenario_db]
  by simp

text \<open>
  C6. For a file that classifies: when the insert fails, the callback returns no error
  and leaves count and database as they were; when it succeeds, the count goes up by
  one. The walk then continues: when the entries before a file of a directory have been
  walked and the insert of the file fails, the walk of the directory's entries is the
  walk of the entries after the file, from the count and the database reached before
  it; and the scan of a directory with a file whose insert the driver fails is, in
  response and database, the scan of the directory without that file. Over a whole
  scan the count answered is the number of rows appended. Whether a scan answers with
  a count does not depend on the store or on its failures: no insert failure aborts a
  scan.
\<close>

theorem insert_failure_skips_file:
  "(\<forall>e db1. \<not> IsDir info \<and>
       supportedExtensions (ToLower (unicode_lower env) (Ext path)) = Some ty \<and>
       NamedExec_insert (insert_fault env path) (now env path) path (Name info) (Length info) ty db
         = (Some e, db1)
     \<longrightarrow> walkFn env path (Some info) None (c, db) = (None, (c, db))) \<and>
   (\<forall>db1. \<not> IsDir info \<and>
       supportedExtensions (ToLower (unicode_lower env) (Ext path)) = Some ty \<and>
       NamedExec_insert (insert_fault env path) (now env path) path (Name info) (Length info) ty db
         = (None, db1)
     \<longrightarrow> walkFn env path (Some info) None (c, db) = (None, (c + 1, db1))) \<and>
   (\<forall>e db1 s0. walk_names (walkFn env) before s0 = (None, (c, db)) \<and>
       supportedExtensions (ToLower (unicode_lower env) (Ext path)) = Some ty \<and>
       NamedExec_insert (insert_fault env path) (now env path) path name sz ty db = (Some e, db1)
     \<longrightarrow> walk_names (walkFn env) (before @ (path, File name sz) # rest) s0 =
         walk_names (walkFn env) rest (c, db)) \<and>
   (\<forall>e. insert_fault env path = Some e
     \<longrightarrow> scanDirectory env b (Dir dname dsz (before @ (path, File name sz) # rest)) db =
         scanDirectory env b (Dir dname dsz (before @ rest)) db) \<and>
   (\<forall>r db'. scanDirectory env b root db = (r, db') \<longrightarrow>
      (\<exists>new. media db' = media db @ new \<and> (\<forall>n. r = OK n \<longrightarrow> n = int (length new)))) \<and>
   ((\<exists>n. fst (scanDirectory env b root db) = OK n) =
    (\<exists>m. fst (scanDirectory env2 b root db2) = OK m))"
proof (intro conjI allI impI)
  fix e db1
  assume "\<not> IsDir info \<and>
       supportedExtensions (ToLower (unicode_lower env) (Ext path)) = Some ty \<and>
       NamedExec_insert (insert_fault env path) (now env path) path (Name info) (Length info) ty db
         = (Some e, db1)"
  then show "walkFn env path (Some info) None (c, db) = (None, (c, db))"
    using walkFn_insert_fails by blast
next
  fix db1
  assume "\<not> IsDir info \<and>
       supportedExtensions (ToLower (unicode_lower env) (Ext path)) = Some ty \<and>
       NamedExec_insert (insert_fault env path) (now env path) path (Name info) (Length info) ty db
         = (None, db1)"
  then show "walkFn env path (Some info) None (c, db) = (None, (c + 1, db1))"
    using walkFn_insert_succeeds by blast
next
  fix e db1 s0
  assume "walk_names (walkFn env) before s0 = (None, (c, db)) \<and>
       supportedExtensions (ToLower (unicode_lower env) (Ext path)) = Some ty \<and>
       NamedExec_insert (insert_fault env path) (now env path) path name sz ty db = (Some e, db1)"
  then show "walk_names (walkFn env) (before @ (path, File name sz) # rest) s0 =
         walk_names (walkFn env) rest (c, db)"
    using walk_names_goes_on by blast
next
  fix e
  assume "insert_fault env path = Some e"
  then show "scanDirectory env b (Dir dname dsz (before @ (path, File name sz) # rest)) db =
         scanDirectory env b (Dir dname dsz (before @ rest)) db"
    by (rule scan_skips)
next
  fix r db'
  assume "scanDirectory env b root db = (r, db')"
  from scan_appends [OF this] show
    "\<exists>new. media db' = media db @ new \<and> (\<forall>n. r = OK n \<longrightarrow> n = int (length new))"
    by blast
next
  show "(\<exists>n. fst (scanDirectory env b root db) = OK n) =
    (\<exists>m. fst (scanDirectory env2 b root db2) = OK m)"
    by (rule scan_outcome_fixed)
qed

theorem insert_failure_skips_file_witness:
  "walkFn (env_insert_fails ''root/b.jpg'') ''root/b.jpg''
      (Some \<lparr>Name = ''b.jpg'', Length = 20, IsDir = False\<rparr>) None (1, db_a) = (None, (1, db_a)) \<and>
   walk_names (walkFn (env_insert_fails ''root/b.jpg''))
      ([(''root/a.mp4'', File ''a.mp4'' 10)] @ (''root/b.jpg'', File ''b.jpg'' 20) #
       [(''root/c.txt'', File ''c.txt'' 5),
        (''root/sub'', Dir ''sub'' 0 [(''root/sub/d.png'', File ''d.png'' 30)])])
      (0, empty_db) = (None, (2, db_a_d)) \<and>
   scanDirectory (env_insert_fails ''root/b.jpg'') (Decoded ''root'') scenario db_a
     = (OK 1, db_a_d)"
proof -
  let ?env = "env_insert_fails ''root/b.jpg''"
  let ?info = "\<lparr>Name = ''b.jpg'', Length = 20, IsDir = False\<rparr>"
  let ?before = "[(''root/a.mp4'', File ''a.mp4'' 10)]"
  let ?rest = "[(''root/c.txt'', File ''c.txt'' 5),
        (''root/sub'', Dir ''sub'' 0 [(''root/sub/d.png'', File ''d.png'' 30)])]"
  have 1: "\<not> IsDir ?info" by simp
  have 2: "supportedExtensions (ToLower (unicode_lower ?env) (Ext ''root/b.jpg'')) = Some ''image''"
    by code_simp
  have 3: "NamedExec_insert (insert_fault ?env ''root/b.jpg'') (now ?env ''root/b.jpg'')
      ''root/b.jpg'' ''b.jpg'' 20 ''image'' db_a = (Some DriverError, db_a)"
    by code_simp
  have 4: "walk_names (walkFn ?env) ?before (0, empty_db) = (None, (1, db_a))"
    by code_simp
  have 5: "walk_names (walkFn ?env) ?rest (1, db_a) = (None, (2, db_a_d))"
    by code_simp
  have 6: "insert_fault ?env ''root/b.jpg'' = Some DriverError"
    by (simp add: env_insert_fails_def)
  have 7: "scenario = Dir ''root'' 0 (?before @ (''root/b.jpg'', File ''b.jpg'' 20) # ?rest)"
    by (simp add: scenario_def)
  have 8: "scanDirectory ?env (Decoded ''root'') (Dir ''root'' 0 (?before @ ?rest)) db_a
      = (OK 1, db_a_d)"
    by code_simp
  note inst = insert_failure_skips_file [where env = ?env and info = ?info
      and path = "''root/b.jpg''" and ty = "''image''" and db = db_a and c = 1
      and name = "''b.jpg''" and sz = 20 and before = ?before and rest = ?rest
      and b = "Decoded ''root''" and dname = "''root''" and dsz = 0]
  from inst have i1: "\<forall>e db1. \<not> IsDir ?info \<and>
       supportedExtensions (ToLower (unicode_lower ?env) (Ext ''root/b.jpg'')) = Some ''image'' \<and>
       NamedExec_insert (insert_fault ?env ''root/b.jpg'') (now ?env ''root/b.jpg'')
         ''root/b.jpg'' (Name ?info) (Length ?info) ''image'' db_a = (Some e, db1)
     \<longrightarrow> walkFn ?env ''root/b.jpg'' (Some ?info) None (1, db_a) = (None, (1, db_a))"
    by (rule conjunct1)
  from inst have i3: "\<forall>e db1 s0. walk_names (walkFn ?env) ?before s0 = (None, (1, db_a)) \<and>
       supportedExtensions (ToLower (unicode_lower ?env) (Ext ''root/b.jpg'')) = Some ''image'' \<and>
       NamedExec_insert (insert_fault ?env ''root/b.jpg'') (now ?env ''root/b.jpg'')
         ''root/b.jpg'' ''b.jpg'' 20 ''image'' db_a = (Some e, db1)
     \<longrightarrow> walk_names (walkFn ?env) (?before @ (''root/b.jpg'', File ''b.jpg'' 20) # ?rest) s0 =
         walk_names (walkFn ?env) ?rest (1, db_a)"
    by (rule conjunct1 [OF conjunct2 [OF conjunct2]])
  from inst have i4: "\<forall>e. insert_fault ?env ''root/b.jpg'' = Some e
     \<longrightarrow> scanDirectory ?env (Decoded ''root'')
           (Dir ''root'' 0 (?before @ (''root/b.jpg'', File ''b.jpg'' 20) # ?rest)) db_a =
         scanDirectory ?env (Decoded ''root'') (Dir ''root'' 0 (?before @ ?rest)) db_a"
    by (rule conjunct1 [OF conjunct2 [OF conjunct2 [OF conjunct2]]])
  have a: "walkFn ?env ''root/b.jpg'' (Some ?info) None (1, db_a) = (None, (1, db_a))"
    using i1 [rule_format, of DriverError db_a] 1 2 3 by simp
  have b: "walk_names (walkFn ?env)
      (?before @ (''root/b.jpg'', File ''b.jpg'' 20) # ?rest) (0, empty_db) = (None, (2, db_a_d))"
    using i3 [rule_format, of "(0, empty_db)" DriverError db_a] 2 3 4 5
    by (simp del: walk.simps walk_names.simps walkFn.simps append.simps)
  have c: "scanDirectory ?env (Decoded ''root'') scenario db_a = (OK 1, db_a_d)"
    using i4 [rule_format, of DriverError] 6 8 unfolding 7
    by (simp del: walk.simps walk_names.simps walkFn.simps append.simps)
  from a b c show ?thesis by (intro conjI)
qed

text \<open>
  C7. In every database that scans lead to from the empty one, the statistics
  (computed by queries that succeed) satisfy total = videos + images, and the total is
  the number of items that \<open>getMediaItems\<close> without a filter returns.
\<close>

theorem counts_consistent:
  assumes "reaches empty_db db"
  shows "\<exists>st items. getStats None None None db = (OK st, []) \<and>
           getMediaItems None '''' db = OK items \<and>
           Total st = Videos st + Images st \<and>
           Total st = int (length items)"
proof -
  have "list_all (\<lambda>r. Type r = ''video'' \<or> Type r = ''image'') (media db)"
    using reaches_types [OF assms] by (simp add: empty_db_def)
  from count_split [OF this] show ?thesis
    by (simp add: getStats_def getMediaItems_def Get_count_def Select_media_def
          stat_field_def stat_log_def)
qed

theorem counts_consistent_witness:
  "reaches empty_db scenario_db \<and>
   getStats None None None scenario_db = (OK \<lparr>Total = 3, Videos = 1, Images = 2\<rparr>, []) \<and>
   (\<exists>items. getMediaItems None '''' scenario_db = OK items \<and> int (length items) = 3)"
proof -
  have 1: "reaches empty_db scenario_db"
    using reaches_scan [OF reaches_refl scenario_scan] .
  have 2: "getStats None None None scenario_db = (OK \<lparr>Total = 3, Videos = 1, Images = 2\<rparr>, [])"
    by code_simp
  from counts_consistent [OF 1] 1 2 show ?thesis by auto
qed

text \<open>
  C8. Without a filter \<open>getMediaItems\<close> returns all rows of the table, newest first by
  \<open>CreatedAt\<close>; with a filter it returns exactly the rows of that type, newest first.
  After a scan of the scenario tree into an empty database by a store whose inserts do
  not fail, the filter \<open>video\<close> returns exactly the row of \<open>a.mp4\<close>.
\<close>

theorem list_newest_first:
  "(\<exists>items. getMediaItems None '''' db = OK items \<and>
      mset items = mset (media db) \<and>
      sorted_wrt (\<lambda>a b. CreatedAt b \<le> CreatedAt a) items) \<and>
   (mediaType \<noteq> '''' \<longrightarrow>
      (\<exists>items. getMediaItems None mediaType db = OK items \<and>
         mset items = mset (filter (\<lambda>r. Type r = mediaType) (media db)) \<and>
         sorted_wrt (\<lambda>a b. CreatedAt b \<le> CreatedAt a) items)) \<and>
   (insert_fault env = (\<lambda>p. None) \<longrightarrow>
      getMediaItems None ''video'' (snd (scanDirectory env (Decoded ''root'') scenario empty_db)) =
        OK [\<lparr>ID = 1, Path = ''root/a.mp4'', Filename = ''a.mp4'', Size = 10,
             Type = ''video'', CreatedAt = now env ''root/a.mp4''\<rparr>])"
proof -
  have all: "\<exists>items. getMediaItems None '''' db = OK items \<and>
      mset items = mset (media db) \<and>
      sorted_wrt (\<lambda>a b. CreatedAt b \<le> CreatedAt a) items"
    using Select_media_ok [of "\<lambda>r. True" db] by (auto simp: getMediaItems_def)
  have kind: "mediaType \<noteq> '''' \<longrightarrow>
      (\<exists>items. getMediaItems None mediaType db = OK items \<and>
         mset items = mset (filter (\<lambda>r. Type r = mediaType) (media db)) \<and>
         sorted_wrt (\<lambda>a b. CreatedAt b \<le> CreatedAt a) items)"
    using Select_media_ok [of "\<lambda>r. Type r = mediaType" db] by (auto simp: getMediaItems_def)
  have scen: "insert_fault env = (\<lambda>p. None) \<longrightarrow>
      getMediaItems None ''video'' (snd (scanDirectory env (Decoded ''root'') scenario empty_db)) =
        OK [\<lparr>ID = 1, Path = ''root/a.mp4'', Filename = ''a.mp4'', Size = 10,
             Type = ''video'', CreatedAt = now env ''root/a.mp4''\<rparr>]"
    by (auto simp: scenario_scan_any_clock getMediaItems_def Select_media_def)
  from all kind scen show ?thesis by blast
qed

theorem list_newest_first_witness:
  "getMediaItems None ''image'' (snd (scanDirectory
       (env0\<lparr>now := (\<lambda>p. if p = ''root/b.jpg'' then 5 else 9)\<rparr>) (Decoded ''root'') scenario empty_db))
     = OK [\<lparr>ID = 3, Path = ''root/sub/d.png'', Filename = ''d.png'', Size = 30,
            Type = ''image'', CreatedAt = 9\<rparr>,
           \<lparr>ID = 2, Path = ''root/b.jpg'', Filename = ''b.jpg'', Size = 20,
            Type = ''image'', CreatedAt = 5\<rparr>] \<and>
   getMediaItems None ''video'' (snd (scanDirectory env0 (Decoded ''root'') scenario empty_db))
     = OK [\<lparr>ID = 1, Path = ''root/a.mp4'', Filename = ''a.mp4'', Size = 10,
            Type = ''video'', CreatedAt = 0\<rparr>]"
proof -
  have 1: "insert_fault env0 = (\<lambda>p. None)" by (simp add: env0_def)
  have 2: "now env0 ''root/a.mp4'' = 0" by (simp add: env0_def)
  have 3: "getMediaItems None ''image'' (snd (scanDirectory
       (env0\<lparr>now := (\<lambda>p. if p = ''root/b.jpg'' then 5 else 9)\<rparr>) (Decoded ''root'') scenario empty_db))
     = OK [\<lparr>ID = 3, Path = ''root/sub/d.png'', Filename = ''d.png'', Size = 30,
            Type = ''image'', CreatedAt = 9\<rparr>,
           \<lparr>ID = 2, Path = ''root/b.jpg'', Filename = ''b.jpg'', Size = 20,
            Type = ''image'', CreatedAt = 5\<rparr>]"
    by code_simp
  from list_newest_first [where env = env0 and mediaType = "''image''"] 1 2 3
  show ?thesis by simp
qed

text \<open>
  C9. The catalog is append-only. Through any sequence of scans the rows that the
  database had stay where they were, with all their columns, and new rows only come
  after them; a direct insert likewise only appends. The reading handlers run no
  statement that writes.
\<close>

theorem catalog_append_only:
  assumes "reaches db db'"
  shows "prefix (media db) (media db') \<and>
         take (length (media db)) (media db') = media db \<and>
         (\<forall>fault ts path filename sz ty r db2.
            NamedExec_insert fault ts path filename sz ty db' = (r, db2) \<longrightarrow>
            prefix (media db') (media db2))"
proof -
  have "prefix (media db) (media db')"
    using assms
  proof (induction rule: reaches.induct)
    case (reaches_refl db)
    then show ?case by simp
  next
    case (reaches_scan db db1 env b root r db2)
    from scan_appends [OF reaches_scan.hyps(2)] obtain new where "media db2 = media db1 @ new"
      by blast
    with reaches_scan.IH show ?case
      by (auto simp: prefix_def)
  qed
  moreover from this have "take (length (media db)) (media db') = media db"
    by (auto simp: prefix_def)
  moreover have "\<forall>fault ts path filename sz ty r db2.
            NamedExec_insert fault ts path filename sz ty db' = (r, db2) \<longrightarrow>
            prefix (media db') (media db2)"
    by (auto simp: NamedExec_insert_def split: option.splits if_splits)
  ultimately show ?thesis by blast
qed

theorem catalog_append_only_witness:
  "reaches db_a scenario_db \<and> prefix (media db_a) (media scenario_db)"
proof -
  have "scanDirectory env0 (Decoded ''root'') scenario db_a = (OK 2, scenario_db)"
    by code_simp
  from reaches_scan [OF reaches_refl this] have 1: "reaches db_a scenario_db" .
  from catalog_append_only [OF 1] 1 show ?thesis by simp
qed


end
